theory Spec2Isabelle
  imports Main
begin

section \<open>The leader's lock store (agent/leader\_socket.go)\<close>

text \<open>
  \<^verbatim>\<open>type LeaderServer struct { mu sync.Mutex; locks map[string]string; svr *http.Server }\<close>

  Only \<open>locks\<close> carries state. The mutex \<open>mu\<close> is taken for the whole body of \<open>load\<close> and
  of \<open>cas\<close>, so each of the two methods is one atomic step on the map; \<open>svr\<close> is the HTTP
  server that calls \<open>ServeHTTP\<close>. A Go map read of an absent key yields the zero value, the
  empty string, and does not create the entry.
\<close>

record LeaderServer =
  locks :: "string \<rightharpoonup> string"

definition NewLeaderServer :: LeaderServer where
  \<comment> \<open>\<^verbatim>\<open>locks: make(map[string]string)\<close>; the failure of \<^verbatim>\<open>net.Listen\<close> is outside the store.\<close>
  "NewLeaderServer = \<lparr>locks = Map.empty\<rparr>"

definition index :: "(string \<rightharpoonup> string) \<Rightarrow> string \<Rightarrow> string" where
  \<comment> \<open>The Go expression \<^verbatim>\<open>m[key]\<close> on a \<^verbatim>\<open>map[string]string\<close>.\<close>
  "index m key = (case m key of None \<Rightarrow> '''' | Some v \<Rightarrow> v)"

definition load :: "LeaderServer \<Rightarrow> string \<Rightarrow> string" where
  "load s key = index (locks s) key"

definition cas :: "LeaderServer \<Rightarrow> string \<Rightarrow> string \<Rightarrow> string \<Rightarrow> bool \<times> LeaderServer" where
  "cas s key old new =
     (if index (locks s) key = old
      then (True, s\<lparr>locks := (locks s)(key \<mapsto> new)\<rparr>)
      else (False, s))"

section \<open>The HTTP handler\<close>

text \<open>
  A request as the handler reads it: the method, \<^verbatim>\<open>r.URL.Path\<close>, and the parsed form
  \<^verbatim>\<open>r.Form\<close> (a \<^verbatim>\<open>url.Values\<close>, that is \<^verbatim>\<open>map[string][]string\<close>).
  \<^verbatim>\<open>r.FormValue(k)\<close> is the first value stored under \<open>k\<close>, or the empty string when there
  is none. The response is what the handler leaves in the \<^verbatim>\<open>ResponseWriter\<close>: a status
  code and a body.
\<close>

record request =
  Method :: string
  Path :: string
  Form :: "string \<rightharpoonup> string list"

record response =
  status :: nat
  body :: string

definition FormValue :: "request \<Rightarrow> string \<Rightarrow> string" where
  "FormValue r k = (case Form r k of None \<Rightarrow> '''' | Some [] \<Rightarrow> '''' | Some (v # _) \<Rightarrow> v)"

definition StatusOK :: nat where "StatusOK = 200"
definition StatusNoContent :: nat where "StatusNoContent = 204"
definition StatusNotModified :: nat where "StatusNotModified = 304"
definition StatusBadRequest :: nat where "StatusBadRequest = 400"
definition StatusNotFound :: nat where "StatusNotFound = 404"
definition StatusMethodNotAllowed :: nat where "StatusMethodNotAllowed = 405"

definition http_Error :: "string \<Rightarrow> nat \<Rightarrow> response" where
  \<comment> \<open>\<^verbatim>\<open>http.Error(w, msg, code)\<close> writes the status and the message followed by a newline.\<close>
  "http_Error msg code = \<lparr>status = code, body = msg @ [CHR 0x0A]\<rparr>"

definition Write_body :: "string \<Rightarrow> response" where
  \<comment> \<open>\<^verbatim>\<open>w.Write(b)\<close> with no earlier \<^verbatim>\<open>WriteHeader\<close>: status 200 and the bytes.\<close>
  "Write_body b = \<lparr>status = StatusOK, body = b\<rparr>"

definition WriteHeader :: "nat \<Rightarrow> response" where
  \<comment> \<open>\<^verbatim>\<open>w.WriteHeader(code)\<close> and nothing written after it.\<close>
  "WriteHeader code = \<lparr>status = code, body = ''''\<rparr>"

definition lock_path :: string where
  "lock_path = ''/api/leader/v0/lock''"

definition ServeHTTP :: "LeaderServer \<Rightarrow> request \<Rightarrow> response \<times> LeaderServer" where
  "ServeHTTP s r =
     (if Path r \<noteq> lock_path then (http_Error ''not found'' StatusNotFound, s)
      else if Method r = ''GET'' then
        (let key = FormValue r ''key'' in
         if key = '''' then (http_Error ''key parameter missing'' StatusBadRequest, s)
         else (Write_body (load s key), s))
      else if Method r = ''PATCH'' then
        (let key = FormValue r ''key''; old = FormValue r ''old''; new = FormValue r ''new'' in
         if key = '''' then (http_Error ''key parameter missing'' StatusBadRequest, s)
         else (case cas s key old new of
                 (True, s') \<Rightarrow> (WriteHeader StatusNoContent, s')
               | (False, s') \<Rightarrow> (WriteHeader StatusNotModified, s')))
      else (http_Error ''unsupported method'' StatusMethodNotAllowed, s))"

section \<open>The client (agent/leader\_socket.go)\<close>

text \<open>
  Go \<^verbatim>\<open>error\<close> values the client can return: an error handed up from the transport or from
  reading the body, and the two errors the client builds itself with \<^verbatim>\<open>fmt.Errorf\<close>:
  \<^verbatim>\<open>"invalid status code %d: %s"\<close> (code and body) and
  \<^verbatim>\<open>"invalid status code %d, and unable to read response body to find out more"\<close> (code).
\<close>

datatype err =
    IOError string
  | InvalidStatus nat string
  | InvalidStatusUnreadable nat

text \<open>
  An \<^verbatim>\<open>*http.Response\<close> as the client uses it: \<^verbatim>\<open>resp.StatusCode\<close> and the result of
  \<^verbatim>\<open>io.ReadAll(resp.Body)\<close>. A \<^verbatim>\<open>LeaderClient\<close> holds one field, the HTTP client
  \<^verbatim>\<open>cli\<close>; it is modelled by what \<^verbatim>\<open>c.cli.Do(req)\<close> does: given a request and the state
  \<open>'w\<close> of everything outside the calling process, it returns an error or a response, and
  the new outside state.
\<close>

record hresp =
  StatusCode :: nat
  Body :: "err + string"

type_synonym 'w LeaderClient = "request \<Rightarrow> 'w \<Rightarrow> (err + hresp) \<times> 'w"

text \<open>
  The requests the client builds. \<^verbatim>\<open>url.Parse\<close> of the constant
  \<^verbatim>\<open>"http://agent/api/leader/v0/lock"\<close> and \<^verbatim>\<open>http.NewRequest\<close> with a constant method do
  not fail; \<^verbatim>\<open>q.Set(k, v)\<close> stores the one-element list \<open>[v]\<close> under \<open>k\<close>, and the query
  string built by \<^verbatim>\<open>q.Encode()\<close> is parsed back by the server to the same values.
\<close>

definition get_request :: "string \<Rightarrow> request" where
  "get_request key =
     \<lparr>Method = ''GET'', Path = ''/api/leader/v0/lock'', Form = [''key'' \<mapsto> [key]]\<rparr>"

definition cas_request :: "string \<Rightarrow> string \<Rightarrow> string \<Rightarrow> request" where
  "cas_request key old new =
     \<lparr>Method = ''PATCH'', Path = ''/api/leader/v0/lock'',
      Form = [''key'' \<mapsto> [key], ''old'' \<mapsto> [old], ''new'' \<mapsto> [new]]\<rparr>"

definition invalid_status :: "hresp \<Rightarrow> err" where
  \<comment> \<open>The error built from a response with an unexpected status code.\<close>
  "invalid_status resp =
     (case Body resp of
        Inl _ \<Rightarrow> InvalidStatusUnreadable (StatusCode resp)
      | Inr b \<Rightarrow> InvalidStatus (StatusCode resp) b)"

definition Get :: "'w LeaderClient \<Rightarrow> string \<Rightarrow> 'w \<Rightarrow> (string \<times> err option) \<times> 'w" where
  "Get c key w =
     (case c (get_request key) w of
        (Inl e, w') \<Rightarrow> (('''', Some e), w')
      | (Inr resp, w') \<Rightarrow>
          if StatusCode resp \<noteq> StatusOK then (('''', Some (invalid_status resp)), w')
          else (case Body resp of
                  Inl e \<Rightarrow> (('''', Some e), w')
                | Inr v \<Rightarrow> ((v, None), w')))"

definition CompareAndSwap ::
  "'w LeaderClient \<Rightarrow> string \<Rightarrow> string \<Rightarrow> string \<Rightarrow> 'w \<Rightarrow> (bool \<times> err option) \<times> 'w" where
  "CompareAndSwap c key old new w =
     (case c (cas_request key old new) w of
        (Inl e, w') \<Rightarrow> ((False, Some e), w')
      | (Inr resp, w') \<Rightarrow>
          if StatusCode resp = StatusNoContent then ((True, None), w')
          else if StatusCode resp = StatusNotModified then ((False, None), w')
          else ((False, Some (invalid_status resp)), w'))"

section \<open>The lock commands (package clicommand)\<close>

text \<open>
  What a command does that its caller or the outside can observe, in order: a call of the
  client with its result, \<^verbatim>\<open>time.Sleep\<close> (in milliseconds), a line on standard output,
  a diagnostic on standard error. The diagnostics are
  \<^item> \<open>Usage h\<close>: \<^verbatim>\<open>fmt.Fprint(c.App.ErrWriter, h)\<close> for the help text named \<open>h\<close>;
  \<^item> \<open>ClientErr e\<close>: \<^verbatim>\<open>fmt.Fprintf(c.App.ErrWriter, lockClientErrMessage, err)\<close>;
  \<^item> \<open>GetErr e\<close>: \<^verbatim>\<open>"Error performing get: %v\n"\<close>;
  \<^item> \<open>CasErr e\<close>: \<^verbatim>\<open>"Error performing compare-and-swap: %v\n"\<close>;
  \<^item> \<open>InvalidState what\<close>: \<^verbatim>\<open>"Lock in invalid state <what> - investigate with 'lock get'"\<close>.

  A run ends with \<open>Some code\<close>, the exit status (\<^verbatim>\<open>os.Exit(1)\<close> gives 1, \<^verbatim>\<open>return nil\<close>
  gives 0), or with \<open>None\<close> when the loop is still going after the given number of
  iterations.
\<close>

datatype diag =
    Usage string
  | ClientErr err
  | GetErr err
  | CasErr err
  | InvalidState string

datatype event =
    CallGet string "string \<times> err option"
  | CallCAS string string string "bool \<times> err option"
  | Sleep nat
  | Stdout string
  | Stderr diag

type_synonym 'w run = "(event list \<times> nat option) \<times> 'w"

definition after :: "event list \<Rightarrow> 'w run \<Rightarrow> 'w run" where
  "after evs r = (case r of ((tr, x), w) \<Rightarrow> ((evs @ tr, x), w))"

subsection \<open>lock acquire\<close>

fun acquire_loop :: "'w LeaderClient \<Rightarrow> string \<Rightarrow> nat \<Rightarrow> 'w \<Rightarrow> 'w run" where
  "acquire_loop c key 0 w = (([], None), w)"
| "acquire_loop c key (Suc n) w =
     (case CompareAndSwap c key '''' ''1'' w of
        ((done, Some e), w') \<Rightarrow>
          (([CallCAS key '''' ''1'' (done, Some e), Stderr (CasErr e)], Some 1), w')
      | ((done, None), w') \<Rightarrow>
          if done then (([CallCAS key '''' ''1'' (done, None)], Some 0), w')
          else after [CallCAS key '''' ''1'' (done, None), Sleep 100] (acquire_loop c key n w'))"

definition lockAcquireAction ::
  "string list \<Rightarrow> err + 'w LeaderClient \<Rightarrow> nat \<Rightarrow> 'w \<Rightarrow> 'w run" where
  \<comment> \<open>The arguments, the result of \<^verbatim>\<open>agent.NewLeaderClient()\<close>, the iteration budget.\<close>
  "lockAcquireAction args nlc fuel w =
     (if length args \<noteq> 1 then (([Stderr (Usage ''lockGetHelpDescription'')], Some 1), w)
      else case nlc of
        Inl e \<Rightarrow> (([Stderr (ClientErr e)], Some 1), w)
      | Inr c \<Rightarrow> acquire_loop c (args ! 0) fuel w)"

subsection \<open>lock release\<close>

definition lockReleaseAction :: "string list \<Rightarrow> err + 'w LeaderClient \<Rightarrow> 'w \<Rightarrow> 'w run" where
  "lockReleaseAction args nlc w =
     (if length args \<noteq> 1 then (([Stderr (Usage ''lockReleaseHelpDescription'')], Some 1), w)
      else case nlc of
        Inl e \<Rightarrow> (([Stderr (ClientErr e)], Some 1), w)
      | Inr c \<Rightarrow>
          (case CompareAndSwap c (args ! 0) ''1'' '''' w of
             ((done, Some e), w') \<Rightarrow>
               (([CallCAS (args ! 0) ''1'' '''' (done, Some e), Stderr (CasErr e)], Some 1), w')
           | ((done, None), w') \<Rightarrow>
               if \<not> done
               then (([CallCAS (args ! 0) ''1'' '''' (done, None),
                       Stderr (InvalidState ''to release'')], Some 1), w')
               else (([CallCAS (args ! 0) ''1'' '''' (done, None)], Some 0), w')))"

subsection \<open>lock do (clicommand/lock\_do.go)\<close>

fun do_loop :: "'w LeaderClient \<Rightarrow> string \<Rightarrow> nat \<Rightarrow> 'w \<Rightarrow> 'w run" where
  "do_loop c key 0 w = (([], None), w)"
| "do_loop c key (Suc n) w =
     (case Get c key w of
        ((state, Some e), w1) \<Rightarrow>
          (([CallGet key (state, Some e), Stderr (GetErr e)], Some 1), w1)
      | ((state, None), w1) \<Rightarrow>
          if state = '''' then
            (case CompareAndSwap c key '''' ''1'' w1 of
               ((done, Some e), w2) \<Rightarrow>
                 (([CallGet key (state, None), CallCAS key '''' ''1'' (done, Some e),
                    Stderr (CasErr e)], Some 1), w2)
             | ((done, None), w2) \<Rightarrow>
                 if done
                 then (([CallGet key (state, None), CallCAS key '''' ''1'' (done, None),
                         Stdout ''do''], Some 0), w2)
                 else after [CallGet key (state, None), CallCAS key '''' ''1'' (done, None)]
                        (do_loop c key n w2))
          else if state = ''1'' then
            after [CallGet key (state, None), Sleep 100] (do_loop c key n w1)
          else if state = ''2'' then
            (([CallGet key (state, None), Stdout ''done''], Some 0), w1)
          else
            (([CallGet key (state, None), Stderr (InvalidState ''for do-once'')], Some 1), w1))"

definition lockDoAction ::
  "string list \<Rightarrow> err + 'w LeaderClient \<Rightarrow> nat \<Rightarrow> 'w \<Rightarrow> 'w run" where
  "lockDoAction args nlc fuel w =
     (if length args \<noteq> 1 then (([Stderr (Usage ''lockDoHelpDescription'')], Some 1), w)
      else case nlc of
        Inl e \<Rightarrow> (([Stderr (ClientErr e)], Some 1), w)
      | Inr c \<Rightarrow> do_loop c (args ! 0) fuel w)"

subsection \<open>lock done\<close>

text \<open>
  The repository holds two texts of \<^verbatim>\<open>lockDoneAction\<close>. The one in
  \<^verbatim>\<open>clicommand/lock_done.go\<close> swaps \<^verbatim>\<open>"doing"\<close> for \<^verbatim>\<open>"done"\<close>; the other one (an
  unnamed file of the repository) swaps \<^verbatim>\<open>"1"\<close> for \<^verbatim>\<open>"2"\<close>. They differ in these two
  tokens only, which are the parameters of their common body \<open>done_with\<close>.
\<close>

definition done_with ::
  "string \<Rightarrow> string \<Rightarrow> string list \<Rightarrow> err + 'w LeaderClient \<Rightarrow> 'w \<Rightarrow> 'w run" where
  "done_with doing finished args nlc w =
     (if length args \<noteq> 1 then (([Stderr (Usage ''lockDoneHelpDescription'')], Some 1), w)
      else case nlc of
        Inl e \<Rightarrow> (([Stderr (ClientErr e)], Some 1), w)
      | Inr c \<Rightarrow>
          (case CompareAndSwap c (args ! 0) doing finished w of
             ((done, Some e), w') \<Rightarrow>
               (([CallCAS (args ! 0) doing finished (done, Some e), Stderr (CasErr e)], Some 1), w')
           | ((done, None), w') \<Rightarrow>
               if \<not> done
               then (([CallCAS (args ! 0) doing finished (done, None),
                       Stderr (InvalidState ''to mark complete'')], Some 1), w')
               else (([CallCAS (args ! 0) doing finished (done, None)], Some 0), w')))"

definition lockDoneAction :: "string list \<Rightarrow> err + 'w LeaderClient \<Rightarrow> 'w \<Rightarrow> 'w run" where
  \<comment> \<open>\<^verbatim>\<open>clicommand/lock_done.go\<close>: \<^verbatim>\<open>cli.CompareAndSwap(key, "doing", "done")\<close>.\<close>
  "lockDoneAction = done_with ''doing'' ''done''"

definition lockDoneAction_numeric :: "string list \<Rightarrow> err + 'w LeaderClient \<Rightarrow> 'w \<Rightarrow> 'w run" where
  \<comment> \<open>The other text: \<^verbatim>\<open>cli.CompareAndSwap(key, "1", "2")\<close>.\<close>
  "lockDoneAction_numeric = done_with ''1'' ''2''"

section \<open>The host: one leader and the other processes\<close>

text \<open>
  Seen from one command, the outside is the leader's store together with what the other
  processes on the host do. Every request is served under the store's mutex, one at a
  time, so the others' requests fall between the calls of this command: \<open>sched\<close> lists,
  for each coming call of this command, the requests of other processes that the leader
  serves before it (none once the list is used up). \<open>leader_Do\<close> is \<^verbatim>\<open>c.cli.Do\<close> on a host
  whose leader is listening: the request reaches \<open>ServeHTTP\<close> and the response comes back
  with a readable body.
\<close>

record host =
  leader :: LeaderServer
  sched :: "request list list"

definition serve_all :: "request list \<Rightarrow> LeaderServer \<Rightarrow> LeaderServer" where
  "serve_all rs s = fold (\<lambda>r s. snd (ServeHTTP s r)) rs s"

definition before_call :: "host \<Rightarrow> LeaderServer" where
  \<comment> \<open>The store at the moment the next request of this command is served.\<close>
  "before_call w = serve_all (case sched w of [] \<Rightarrow> [] | rs # _ \<Rightarrow> rs) (leader w)"

definition leader_Do :: "host LeaderClient" where
  "leader_Do req w =
     (case ServeHTTP (before_call w) req of
        (resp, s1) \<Rightarrow>
          (Inr \<lparr>StatusCode = status resp, Body = Inr (body resp)\<rparr>,
           \<lparr>leader = s1, sched = tl (sched w)\<rparr>))"

definition writes :: "string \<Rightarrow> request \<Rightarrow> bool" where
  \<comment> \<open>The requests that can change the token of \<open>k\<close>.\<close>
  "writes k r = (Path r = lock_path \<and> Method r = ''PATCH'' \<and> FormValue r ''key'' = k)"

definition quiet :: "string \<Rightarrow> host \<Rightarrow> bool" where
  \<comment> \<open>No other process sends a request that can change the token of \<open>k\<close>.\<close>
  "quiet k w = (\<forall>rs \<in> set (sched w). \<forall>r \<in> set rs. \<not> writes k r)"

definition idle :: "LeaderServer \<Rightarrow> host" where
  \<comment> \<open>A host on which no other process sends anything.\<close>
  "idle s = \<lparr>leader = s, sched = []\<rparr>"

subsection \<open>Shapes of traces\<close>

definition retries :: "string \<Rightarrow> nat \<Rightarrow> event list" where
  \<comment> \<open>\<open>n\<close> rounds of \<open>lock acquire\<close>: a refused swap, then the 100 ms sleep.\<close>
  "retries key n = concat (replicate n [CallCAS key '''' ''1'' (False, None), Sleep 100])"

definition polls :: "string \<Rightarrow> nat \<Rightarrow> event list" where
  \<comment> \<open>\<open>n\<close> rounds of \<open>lock do\<close> on a key in state \<open>1\<close>: the read, then the 100 ms sleep.\<close>
  "polls key n = concat (replicate n [CallGet key (''1'', None), Sleep 100])"

definition acquire_end :: "string \<Rightarrow> nat option \<Rightarrow> event list \<Rightarrow> bool" where
  \<comment> \<open>How a run of \<open>lock acquire\<close> can end after its retries: still going with nothing more
      done, exit 0 right after a swap that was accepted, or exit 1 right after a swap that
      returned an error, with that error on standard error.\<close>
  "acquire_end key x tail =
     (case x of
        None \<Rightarrow> tail = []
      | Some code \<Rightarrow>
          (code = 0 \<and> tail = [CallCAS key '''' ''1'' (True, None)]) \<or>
          (code = 1 \<and> (\<exists>d e. tail = [CallCAS key '''' ''1'' (d, Some e), Stderr (CasErr e)])))"

section \<open>Properties of the store\<close>

lemma load_unset: "locks s key = None \<Longrightarrow> load s key = ''''"
  by (simp add: load_def index_def)

lemma load_set: "locks s key = Some v \<Longrightarrow> load s key = v"
  by (simp add: load_def index_def)

lemma cas_hit: "load s key = old \<Longrightarrow> cas s key old new = (True, s\<lparr>locks := (locks s)(key \<mapsto> new)\<rparr>)"
  by (simp add: cas_def load_def)

lemma cas_miss: "load s key \<noteq> old \<Longrightarrow> cas s key old new = (False, s)"
  by (simp add: cas_def load_def)

lemma load_after_cas:
  "load (snd (cas s key old new)) k =
     (if k = key \<and> load s key = old then new else load s k)"
  by (simp add: cas_def load_def index_def)

lemma locks_after_cas_other: "k \<noteq> key \<Longrightarrow> locks (snd (cas s key old new)) k = locks s k"
  by (simp add: cas_def)

lemma load_cong_locks: "locks s k = locks t k \<Longrightarrow> load s k = load t k"
  by (simp add: load_def index_def)

section \<open>Properties of the handler and of the client on a host\<close>

lemma ServeHTTP_GET:
  "Path r = lock_path \<Longrightarrow> Method r = ''GET'' \<Longrightarrow>
   ServeHTTP s r =
     (if FormValue r ''key'' = '''' then http_Error ''key parameter missing'' StatusBadRequest
      else Write_body (load s (FormValue r ''key'')), s)"
  by (simp add: ServeHTTP_def Let_def)

lemma ServeHTTP_PATCH:
  "Path r = lock_path \<Longrightarrow> Method r = ''PATCH'' \<Longrightarrow>
   ServeHTTP s r =
     (if FormValue r ''key'' = '''' then (http_Error ''key parameter missing'' StatusBadRequest, s)
      else if load s (FormValue r ''key'') = FormValue r ''old''
      then (WriteHeader StatusNoContent,
            s\<lparr>locks := (locks s)(FormValue r ''key'' \<mapsto> FormValue r ''new'')\<rparr>)
      else (WriteHeader StatusNotModified, s))"
  by (simp add: ServeHTTP_def Let_def cas_def load_def)

lemma ServeHTTP_not_PATCH: "Method r \<noteq> ''PATCH'' \<Longrightarrow> snd (ServeHTTP s r) = s"
  by (simp add: ServeHTTP_def Let_def)

lemma ServeHTTP_other_path: "Path r \<noteq> lock_path \<Longrightarrow> snd (ServeHTTP s r) = s"
  by (simp add: ServeHTTP_def)

lemma ServeHTTP_frame:
  "\<not> writes k r \<Longrightarrow> locks (snd (ServeHTTP s r)) k = locks s k"
  by (auto simp add: ServeHTTP_def Let_def writes_def cas_def split: if_splits)

lemma serve_all_frame:
  "\<forall>r \<in> set rs. \<not> writes k r \<Longrightarrow> locks (serve_all rs s) k = locks s k"
  unfolding serve_all_def
  by (induction rs arbitrary: s) (simp_all add: ServeHTTP_frame)

lemma before_call_quiet: "quiet k w \<Longrightarrow> load (before_call w) k = load (leader w) k"
proof (cases "sched w")
  case Nil
  then show ?thesis by (simp add: before_call_def serve_all_def)
next
  case (Cons rs rest)
  assume "quiet k w"
  with Cons have "\<forall>r \<in> set rs. \<not> writes k r" by (simp add: quiet_def)
  then have "locks (serve_all rs (leader w)) k = locks (leader w) k" by (rule serve_all_frame)
  then have "load (serve_all rs (leader w)) k = load (leader w) k" by (rule load_cong_locks)
  with Cons show ?thesis by (simp add: before_call_def)
qed

lemma quiet_tl: "quiet k w \<Longrightarrow> quiet k \<lparr>leader = s, sched = tl (sched w)\<rparr>"
  unfolding quiet_def by (cases "sched w") auto

lemma before_call_idle [simp]: "before_call (idle s) = s"
  by (simp add: before_call_def idle_def serve_all_def)

lemma idle_step [simp]: "\<lparr>leader = s, sched = tl (sched (idle t))\<rparr> = idle s"
  by (simp add: idle_def)

lemma quiet_idle [simp]: "quiet k (idle s)"
  by (simp add: quiet_def idle_def)

lemma leader_idle [simp]: "leader (idle s) = s"
  by (simp add: idle_def)

lemma FormValue_cas_request [simp]:
  "FormValue (cas_request key old new) ''key'' = key"
  "FormValue (cas_request key old new) ''old'' = old"
  "FormValue (cas_request key old new) ''new'' = new"
  by (simp_all add: FormValue_def cas_request_def)

lemma FormValue_get_request [simp]: "FormValue (get_request key) ''key'' = key"
  by (simp add: FormValue_def get_request_def)

lemma CompareAndSwap_leader:
  "key \<noteq> '''' \<Longrightarrow>
   CompareAndSwap leader_Do key old new w =
     ((load (before_call w) key = old, None),
      \<lparr>leader = snd (cas (before_call w) key old new), sched = tl (sched w)\<rparr>)"
  by (simp add: CompareAndSwap_def leader_Do_def ServeHTTP_PATCH cas_request_def lock_path_def
      FormValue_def WriteHeader_def StatusNoContent_def StatusNotModified_def cas_def load_def)

lemma CompareAndSwap_leader_nokey:
  "CompareAndSwap leader_Do '''' old new w =
     ((False, Some (InvalidStatus StatusBadRequest (''key parameter missing'' @ [CHR 0x0A]))),
      \<lparr>leader = before_call w, sched = tl (sched w)\<rparr>)"
  by (simp add: CompareAndSwap_def leader_Do_def ServeHTTP_PATCH cas_request_def lock_path_def
      FormValue_def http_Error_def StatusNoContent_def StatusNotModified_def StatusBadRequest_def
      invalid_status_def)

lemma Get_leader:
  "key \<noteq> '''' \<Longrightarrow>
   Get leader_Do key w =
     ((load (before_call w) key, None), \<lparr>leader = before_call w, sched = tl (sched w)\<rparr>)"
  by (simp add: Get_def leader_Do_def ServeHTTP_GET get_request_def lock_path_def
      FormValue_def Write_body_def)

lemma Get_leader_nokey:
  "Get leader_Do '''' w =
     (('''', Some (InvalidStatus StatusBadRequest (''key parameter missing'' @ [CHR 0x0A]))),
      \<lparr>leader = before_call w, sched = tl (sched w)\<rparr>)"
  by (simp add: Get_def leader_Do_def ServeHTTP_GET get_request_def lock_path_def
      FormValue_def http_Error_def StatusOK_def StatusBadRequest_def invalid_status_def)

section \<open>Claims about the store, the handler and the client\<close>

text \<open>
  C1. Compare-and-swap on the store: when the current token of \<open>key\<close> (the empty string for
  a key with no entry) equals \<open>old\<close>, \<open>cas\<close> reports \<open>True\<close> and the token of \<open>key\<close> is \<open>new\<close>
  afterwards; otherwise it reports \<open>False\<close> and the store is the one it was given.
\<close>

theorem cas_semantics:
  "(load s key = old \<longrightarrow>
      fst (cas s key old new) = True \<and> load (snd (cas s key old new)) key = new) \<and>
   (load s key \<noteq> old \<longrightarrow>
      fst (cas s key old new) = False \<and> snd (cas s key old new) = s)"
  by (simp add: cas_def load_def index_def)

theorem cas_semantics_witness:
  "load NewLeaderServer ''build-lock'' = '''' \<and>
   fst (cas NewLeaderServer ''build-lock'' '''' ''1'') = True \<and>
   load (snd (cas NewLeaderServer ''build-lock'' '''' ''1'')) ''build-lock'' = ''1'' \<and>
   load \<lparr>locks = [''build-lock'' \<mapsto> ''2'']\<rparr> ''build-lock'' \<noteq> ''1'' \<and>
   fst (cas \<lparr>locks = [''build-lock'' \<mapsto> ''2'']\<rparr> ''build-lock'' ''1'' ''3'') = False \<and>
   snd (cas \<lparr>locks = [''build-lock'' \<mapsto> ''2'']\<rparr> ''build-lock'' ''1'' ''3'')
     = \<lparr>locks = [''build-lock'' \<mapsto> ''2'']\<rparr>"
proof -
  have a: "load NewLeaderServer ''build-lock'' = ''''"
    by (simp add: load_def index_def NewLeaderServer_def)
  have b: "load \<lparr>locks = [''build-lock'' \<mapsto> ''2'']\<rparr> ''build-lock'' \<noteq> ''1''"
    by (simp add: load_def index_def)
  show ?thesis
    using a b
      cas_semantics [of NewLeaderServer "''build-lock''" "''''" "''1''"]
      cas_semantics [of "\<lparr>locks = [''build-lock'' \<mapsto> ''2'']\<rparr>" "''build-lock''" "''1''" "''3''"]
    by simp
qed

text \<open>
  C6. A key that has never been written has no entry in the map, and \<open>load\<close> of a key
  with no entry is the empty string. In particular, after the leader has served any
  requests none of which is a PATCH for \<open>key\<close>, starting from the empty store of
  \<open>NewLeaderServer\<close>, \<open>load\<close> of \<open>key\<close> is the empty string. \<open>load\<close> has no error result
  at all: it returns a string for every store and every key.
\<close>

theorem load_never_written:
  "(locks s key = None \<longrightarrow> load s key = '''') \<and>
   ((\<forall>r \<in> set rs. \<not> writes key r) \<longrightarrow>
      locks (serve_all rs NewLeaderServer) key = None \<and>
      load (serve_all rs NewLeaderServer) key = '''')"
proof (intro conjI impI)
  assume "locks s key = None"
  then show "load s key = ''''" by (rule load_unset)
next
  assume "\<forall>r \<in> set rs. \<not> writes key r"
  then have "locks (serve_all rs NewLeaderServer) key = locks NewLeaderServer key"
    by (rule serve_all_frame)
  then show n: "locks (serve_all rs NewLeaderServer) key = None"
    by (simp add: NewLeaderServer_def)
  then show "load (serve_all rs NewLeaderServer) key = ''''" by (rule load_unset)
qed

theorem load_never_written_witness:
  "locks NewLeaderServer ''llama'' = None \<and> load NewLeaderServer ''llama'' = '''' \<and>
   \<not> writes ''llama'' (cas_request ''alpaca'' '''' ''1'') \<and>
   \<not> writes ''llama'' (get_request ''llama'') \<and>
   locks (serve_all [cas_request ''alpaca'' '''' ''1'', get_request ''llama''] NewLeaderServer) ''llama''
     = None \<and>
   load (serve_all [cas_request ''alpaca'' '''' ''1'', get_request ''llama''] NewLeaderServer) ''llama''
     = ''''"
proof -
  have h: "locks NewLeaderServer ''llama'' = None"
    by (simp add: NewLeaderServer_def)
  have q: "\<forall>r \<in> set [cas_request ''alpaca'' '''' ''1'', get_request ''llama'']. \<not> writes ''llama'' r"
    by (simp add: writes_def get_request_def)
  then have q1: "\<not> writes ''llama'' (cas_request ''alpaca'' '''' ''1'')"
    and q2: "\<not> writes ''llama'' (get_request ''llama'')"
    by simp_all
  note T = load_never_written
    [of NewLeaderServer "''llama''" "[cas_request ''alpaca'' '''' ''1'', get_request ''llama'']"]
  from T [THEN conjunct1] h have a: "load NewLeaderServer ''llama'' = ''''" by (rule mp)
  from T [THEN conjunct2] q have b:
    "locks (serve_all [cas_request ''alpaca'' '''' ''1'', get_request ''llama''] NewLeaderServer) ''llama''
       = None \<and>
     load (serve_all [cas_request ''alpaca'' '''' ''1'', get_request ''llama''] NewLeaderServer) ''llama''
       = ''''"
    by (rule mp)
  from h a q1 q2 b [THEN conjunct1] b [THEN conjunct2] show ?thesis by (intro conjI)
qed

text \<open>
  C9. Frame property. \<open>cas\<close> on \<open>key\<close>, whether it succeeds or not, leaves the entry and the
  token of every other key as they were; so does every request the handler serves, for
  every key the request is not a PATCH for. Reading does not write: \<open>load\<close> returns a
  token and no store, and a GET request leaves the whole store as it was, whatever the
  handler answers.
\<close>

theorem store_frame:
  "(k \<noteq> key \<longrightarrow>
      locks (snd (cas s key old new)) k = locks s k \<and>
      load (snd (cas s key old new)) k = load s k) \<and>
   (\<not> writes k r \<longrightarrow>
      locks (snd (ServeHTTP s r)) k = locks s k \<and> load (snd (ServeHTTP s r)) k = load s k) \<and>
   (Method r = ''GET'' \<longrightarrow> snd (ServeHTTP s r) = s)"
proof (intro conjI impI)
  assume "k \<noteq> key"
  then show "locks (snd (cas s key old new)) k = locks s k" by (rule locks_after_cas_other)
  then show "load (snd (cas s key old new)) k = load s k" by (rule load_cong_locks)
next
  assume "\<not> writes k r"
  then show "locks (snd (ServeHTTP s r)) k = locks s k" by (rule ServeHTTP_frame)
  then show "load (snd (ServeHTTP s r)) k = load s k" by (rule load_cong_locks)
next
  assume "Method r = ''GET''"
  then show "snd (ServeHTTP s r) = s" by (simp add: ServeHTTP_not_PATCH)
qed

theorem store_frame_witness:
  "''b'' \<noteq> ''a'' \<and>
   locks (snd (cas \<lparr>locks = [''b'' \<mapsto> ''1'']\<rparr> ''a'' '''' ''1'')) ''b'' = Some ''1'' \<and>
   load (snd (cas \<lparr>locks = [''b'' \<mapsto> ''1'']\<rparr> ''a'' '''' ''1'')) ''b'' = ''1'' \<and>
   \<not> writes ''b'' (get_request ''b'') \<and>
   Method (get_request ''b'') = ''GET'' \<and>
   snd (ServeHTTP \<lparr>locks = [''b'' \<mapsto> ''1'']\<rparr> (get_request ''b'')) = \<lparr>locks = [''b'' \<mapsto> ''1'']\<rparr>"
  using store_frame [of "''b''" "''a''" "\<lparr>locks = [''b'' \<mapsto> ''1'']\<rparr>" "''''" "''1''" "get_request ''b''"]
  by (simp add: get_request_def load_def index_def writes_def)

text \<open>
  C10. A GET or PATCH request to the lock path whose \<open>key\<close> form value is the empty string
  is answered with 400 and the body \<open>key parameter missing\<close>; the answer is the same for
  every store, and the store is returned as it was. The handler sees the empty string
  both when the parameter is absent and when it is present and empty.
\<close>

theorem empty_key_rejected:
  "Path r = lock_path \<Longrightarrow> Method r = ''GET'' \<or> Method r = ''PATCH'' \<Longrightarrow>
   Form r ''key'' = None \<or> Form r ''key'' = Some [] \<or> (\<exists>vs. Form r ''key'' = Some ('''' # vs)) \<Longrightarrow>
   ServeHTTP s r = (http_Error ''key parameter missing'' StatusBadRequest, s) \<and>
   status (fst (ServeHTTP s r)) = 400"
proof -
  assume p: "Path r = lock_path" and m: "Method r = ''GET'' \<or> Method r = ''PATCH''"
    and k: "Form r ''key'' = None \<or> Form r ''key'' = Some [] \<or> (\<exists>vs. Form r ''key'' = Some ('''' # vs))"
  from k have e: "FormValue r ''key'' = ''''"
    by (auto simp add: FormValue_def)
  from m have "ServeHTTP s r = (http_Error ''key parameter missing'' StatusBadRequest, s)"
  proof
    assume "Method r = ''GET''"
    with p e show ?thesis by (simp add: ServeHTTP_GET)
  next
    assume "Method r = ''PATCH''"
    with p e show ?thesis by (simp add: ServeHTTP_PATCH)
  qed
  then show ?thesis by (simp add: http_Error_def StatusBadRequest_def)
qed

theorem empty_key_rejected_witness:
  "Path (cas_request '''' '''' ''1'') = lock_path \<and>
   Method (cas_request '''' '''' ''1'') = ''PATCH'' \<and>
   Form (cas_request '''' '''' ''1'') ''key'' = Some [''''] \<and>
   ServeHTTP \<lparr>locks = [''a'' \<mapsto> ''1'']\<rparr> (cas_request '''' '''' ''1'')
     = (http_Error ''key parameter missing'' StatusBadRequest, \<lparr>locks = [''a'' \<mapsto> ''1'']\<rparr>) \<and>
   status (fst (ServeHTTP \<lparr>locks = [''a'' \<mapsto> ''1'']\<rparr> (cas_request '''' '''' ''1''))) = 400"
proof -
  have p: "Path (cas_request '''' '''' ''1'') = lock_path"
    by (simp add: cas_request_def lock_path_def)
  have m: "Method (cas_request '''' '''' ''1'') = ''GET'' \<or> Method (cas_request '''' '''' ''1'') = ''PATCH''"
    by (simp add: cas_request_def)
  have k: "Form (cas_request '''' '''' ''1'') ''key'' = None \<or>
           Form (cas_request '''' '''' ''1'') ''key'' = Some [] \<or>
           (\<exists>vs. Form (cas_request '''' '''' ''1'') ''key'' = Some ('''' # vs))"
    by (simp add: cas_request_def)
  have f: "Form (cas_request '''' '''' ''1'') ''key'' = Some ['''']"
    and m': "Method (cas_request '''' '''' ''1'') = ''PATCH''"
    by (simp_all add: cas_request_def)
  from p m' f empty_key_rejected [OF p m k, of "\<lparr>locks = [''a'' \<mapsto> ''1'']\<rparr>"]
  show ?thesis by blast
qed

text \<open>
  C3, as the handler has it. A PATCH request to the lock path gets exactly one of three
  answers, decided by the \<open>key\<close> form value alone as far as 400 is concerned: 400 when
  \<open>key\<close> is absent or empty; otherwise 204, with the swap done, when the token of \<open>key\<close>
  equals the \<open>old\<close> form value; otherwise 304, with the store as it was. An absent \<open>old\<close>
  or \<open>new\<close> is read as the empty string and is not rejected.
\<close>

theorem patch_outcomes:
  "Path r = lock_path \<Longrightarrow> Method r = ''PATCH'' \<Longrightarrow>
   (FormValue r ''key'' = '''' \<longrightarrow>
      ServeHTTP s r = (http_Error ''key parameter missing'' StatusBadRequest, s)) \<and>
   (FormValue r ''key'' \<noteq> '''' \<and> load s (FormValue r ''key'') = FormValue r ''old'' \<longrightarrow>
      ServeHTTP s r = (WriteHeader StatusNoContent,
                       snd (cas s (FormValue r ''key'') (FormValue r ''old'') (FormValue r ''new''))) \<and>
      fst (cas s (FormValue r ''key'') (FormValue r ''old'') (FormValue r ''new''))) \<and>
   (FormValue r ''key'' \<noteq> '''' \<and> load s (FormValue r ''key'') \<noteq> FormValue r ''old'' \<longrightarrow>
      ServeHTTP s r = (WriteHeader StatusNotModified, s) \<and>
      \<not> fst (cas s (FormValue r ''key'') (FormValue r ''old'') (FormValue r ''new''))) \<and>
   status (fst (ServeHTTP s r)) \<in> {204, 304, 400}"
  by (simp add: ServeHTTP_PATCH cas_def load_def WriteHeader_def http_Error_def
      StatusNoContent_def StatusNotModified_def StatusBadRequest_def)

theorem patch_outcomes_witness:
  "Path (cas_request ''k'' ''1'' '''') = lock_path \<and>
   Method (cas_request ''k'' ''1'' '''') = ''PATCH'' \<and>
   FormValue (cas_request ''k'' ''1'' '''') ''key'' \<noteq> '''' \<and>
   load NewLeaderServer ''k'' \<noteq> ''1'' \<and>
   ServeHTTP NewLeaderServer (cas_request ''k'' ''1'' '''')
     = (WriteHeader StatusNotModified, NewLeaderServer) \<and>
   ServeHTTP \<lparr>locks = [''k'' \<mapsto> ''1'']\<rparr> (cas_request ''k'' ''1'' '''')
     = (WriteHeader StatusNoContent, \<lparr>locks = [''k'' \<mapsto> '''']\<rparr>) \<and>
   ServeHTTP NewLeaderServer (cas_request '''' ''1'' '''')
     = (http_Error ''key parameter missing'' StatusBadRequest, NewLeaderServer)"
proof -
  have p: "Path (cas_request k ''1'' '''') = lock_path" for k
    by (simp add: cas_request_def lock_path_def)
  have m: "Method (cas_request k ''1'' '''') = ''PATCH''" for k
    by (simp add: cas_request_def)
  show ?thesis
    using p [of "''k''"] m [of "''k''"]
      patch_outcomes [OF p m, of "''k''" NewLeaderServer]
      patch_outcomes [OF p m, of "''k''" "\<lparr>locks = [''k'' \<mapsto> ''1'']\<rparr>"]
      patch_outcomes [OF p m, of "''''" NewLeaderServer]
    by (simp add: load_def index_def NewLeaderServer_def cas_def)
qed

theorem patch_missing_old_new_counterexample:
  "Path \<lparr>Method = ''PATCH'', Path = ''/api/leader/v0/lock'', Form = [''key'' \<mapsto> [''k'']]\<rparr> = lock_path \<and>
   Form \<lparr>Method = ''PATCH'', Path = ''/api/leader/v0/lock'', Form = [''key'' \<mapsto> [''k'']]\<rparr> ''old'' = None \<and>
   Form \<lparr>Method = ''PATCH'', Path = ''/api/leader/v0/lock'', Form = [''key'' \<mapsto> [''k'']]\<rparr> ''new'' = None \<and>
   ServeHTTP NewLeaderServer
     \<lparr>Method = ''PATCH'', Path = ''/api/leader/v0/lock'', Form = [''key'' \<mapsto> [''k'']]\<rparr>
     = (\<lparr>status = 204, body = ''''\<rparr>, \<lparr>locks = [''k'' \<mapsto> '''']\<rparr>) \<and>
   status (fst (ServeHTTP NewLeaderServer
     \<lparr>Method = ''PATCH'', Path = ''/api/leader/v0/lock'', Form = [''key'' \<mapsto> [''k'']]\<rparr>)) \<noteq> 400"
  by (simp add: ServeHTTP_def lock_path_def FormValue_def cas_def index_def NewLeaderServer_def
      WriteHeader_def StatusNoContent_def)

text \<open>
  C5. The client's reading of the response to a compare-and-swap request: for every
  transport \<open>c\<close> and every response it delivers, status 204 gives \<open>(true, nil)\<close>, status
  304 gives \<open>(false, nil)\<close>, and every other status gives \<open>false\<close> with an error that holds
  the status code, and the body whenever the body could be read.
\<close>

theorem CompareAndSwap_result:
  "c (cas_request key old new) w = (Inr resp, w') \<Longrightarrow>
   (StatusCode resp = 204 \<longrightarrow> CompareAndSwap c key old new w = ((True, None), w')) \<and>
   (StatusCode resp = 304 \<longrightarrow> CompareAndSwap c key old new w = ((False, None), w')) \<and>
   (StatusCode resp \<noteq> 204 \<and> StatusCode resp \<noteq> 304 \<longrightarrow>
      (\<forall>b. Body resp = Inr b \<longrightarrow>
         CompareAndSwap c key old new w = ((False, Some (InvalidStatus (StatusCode resp) b)), w')) \<and>
      (\<forall>e. Body resp = Inl e \<longrightarrow>
         CompareAndSwap c key old new w
           = ((False, Some (InvalidStatusUnreadable (StatusCode resp))), w')))"
  by (simp add: CompareAndSwap_def StatusNoContent_def StatusNotModified_def invalid_status_def)

theorem CompareAndSwap_result_witness:
  "CompareAndSwap (\<lambda>req w. (Inr \<lparr>StatusCode = 204, Body = Inr ''''\<rparr>, w)) ''k'' '''' ''1'' ()
     = ((True, None), ()) \<and>
   CompareAndSwap (\<lambda>req w. (Inr \<lparr>StatusCode = 304, Body = Inr ''''\<rparr>, w)) ''k'' '''' ''1'' ()
     = ((False, None), ()) \<and>
   CompareAndSwap (\<lambda>req w. (Inr \<lparr>StatusCode = 500, Body = Inr ''boom''\<rparr>, w)) ''k'' '''' ''1'' ()
     = ((False, Some (InvalidStatus 500 ''boom'')), ()) \<and>
   CompareAndSwap (\<lambda>req w. (Inr \<lparr>StatusCode = 400, Body = Inl (IOError ''reset'')\<rparr>, w)) ''k'' '''' ''1'' ()
     = ((False, Some (InvalidStatusUnreadable 400)), ())"
  using
    CompareAndSwap_result
      [of "\<lambda>req w. (Inr \<lparr>StatusCode = 204, Body = Inr ''''\<rparr>, w)" "''k''" "''''" "''1''" "()"
          "\<lparr>StatusCode = 204, Body = Inr ''''\<rparr>" "()"]
    CompareAndSwap_result
      [of "\<lambda>req w. (Inr \<lparr>StatusCode = 304, Body = Inr ''''\<rparr>, w)" "''k''" "''''" "''1''" "()"
          "\<lparr>StatusCode = 304, Body = Inr ''''\<rparr>" "()"]
    CompareAndSwap_result
      [of "\<lambda>req w. (Inr \<lparr>StatusCode = 500, Body = Inr ''boom''\<rparr>, w)" "''k''" "''''" "''1''" "()"
          "\<lparr>StatusCode = 500, Body = Inr ''boom''\<rparr>" "()"]
    CompareAndSwap_result
      [of "\<lambda>req w. (Inr \<lparr>StatusCode = 400, Body = Inl (IOError ''reset'')\<rparr>, w)" "''k''" "''''" "''1''" "()"
          "\<lparr>StatusCode = 400, Body = Inl (IOError ''reset'')\<rparr>" "()"]
  by simp

section \<open>The commands on a host\<close>

lemma after_simp [simp]: "after evs ((tr, x), w) = ((evs @ tr, x), w)"
  by (simp add: after_def)

lemma fst_after: "fst (after evs r) = (evs @ fst (fst r), snd (fst r))"
  by (cases r) (auto simp add: after_def)

lemma retries_Suc: "retries key (Suc n) = [CallCAS key '''' ''1'' (False, None), Sleep 100] @ retries key n"
  by (simp add: retries_def)

lemma polls_Suc: "polls key (Suc n) = [CallGet key (''1'', None), Sleep 100] @ polls key n"
  by (simp add: polls_def)

lemma retries_0 [simp]: "retries key 0 = []"
  by (simp add: retries_def)

lemma polls_0 [simp]: "polls key 0 = []"
  by (simp add: polls_def)

subsection \<open>lock acquire\<close>

lemma lockAcquireAction_loop: "lockAcquireAction [key] (Inr c) n w = acquire_loop c key n w"
  by (simp add: lockAcquireAction_def)

text \<open>The shape of every run of the loop, for any client.\<close>

lemma acquire_loop_shape:
  "\<exists>m tail. m \<le> n \<and> fst (fst (acquire_loop c key n w)) = retries key m @ tail \<and>
     acquire_end key (snd (fst (acquire_loop c key n w))) tail \<and>
     (snd (fst (acquire_loop c key n w)) = None \<longrightarrow> m = n)"
proof (induction n arbitrary: w)
  case 0
  show ?case by (simp add: acquire_end_def)
next
  case (Suc n)
  obtain d eo w' where cas: "CompareAndSwap c key '''' ''1'' w = ((d, eo), w')"
    by (cases "CompareAndSwap c key [] ''1'' w") auto
  show ?case
  proof (cases eo)
    case (Some e)
    with cas have "acquire_loop c key (Suc n) w
        = (([CallCAS key '''' ''1'' (d, Some e), Stderr (CasErr e)], Some 1), w')"
      by simp
    then show ?thesis
      by (intro exI [of _ 0] exI [of _ "[CallCAS key '''' ''1'' (d, Some e), Stderr (CasErr e)]"])
         (simp add: acquire_end_def)
  next
    case None
    show ?thesis
    proof (cases d)
      case True
      with cas None have "acquire_loop c key (Suc n) w
          = (([CallCAS key '''' ''1'' (True, None)], Some 0), w')"
        by simp
      then show ?thesis
        by (intro exI [of _ 0] exI [of _ "[CallCAS key '''' ''1'' (True, None)]"])
           (simp add: acquire_end_def)
    next
      case False
      with cas None have step: "acquire_loop c key (Suc n) w
          = after [CallCAS key '''' ''1'' (False, None), Sleep 100] (acquire_loop c key n w')"
        by simp
      from Suc.IH [of w'] obtain m tail where
        IH: "m \<le> n \<and> fst (fst (acquire_loop c key n w')) = retries key m @ tail \<and>
             acquire_end key (snd (fst (acquire_loop c key n w'))) tail \<and>
             (snd (fst (acquire_loop c key n w')) = None \<longrightarrow> m = n)"
        by (elim exE) (rule that)
      from IH have m: "m \<le> n" by (rule conjunct1)
      from IH have tr: "fst (fst (acquire_loop c key n w')) = retries key m @ tail"
        by (elim conjE)
      from IH have e: "acquire_end key (snd (fst (acquire_loop c key n w'))) tail"
        by (elim conjE)
      from IH have f: "snd (fst (acquire_loop c key n w')) = None \<longrightarrow> m = n"
        by (elim conjE)
      have a: "fst (fst (acquire_loop c key (Suc n) w)) = retries key (Suc m) @ tail"
        unfolding step fst_after retries_Suc using tr by simp
      have b: "snd (fst (acquire_loop c key (Suc n) w)) = snd (fst (acquire_loop c key n w'))"
        unfolding step fst_after by simp
      from m have c: "Suc m \<le> Suc n" by simp
      from f have d: "snd (fst (acquire_loop c key n w')) = None \<longrightarrow> Suc m = Suc n" by simp
      from e have e': "acquire_end key (snd (fst (acquire_loop c key (Suc n) w))) tail"
        unfolding b .
      from d have d': "snd (fst (acquire_loop c key (Suc n) w)) = None \<longrightarrow> Suc m = Suc n"
        unfolding b .
      from c a e' d' have
        "Suc m \<le> Suc n \<and>
         fst (fst (acquire_loop c key (Suc n) w)) = retries key (Suc m) @ tail \<and>
         acquire_end key (snd (fst (acquire_loop c key (Suc n) w))) tail \<and>
         (snd (fst (acquire_loop c key (Suc n) w)) = None \<longrightarrow> Suc m = Suc n)"
        by (intro conjI)
      then show ?thesis by (intro exI)
    qed
  qed
qed

lemma acquire_leader_free:
  "key \<noteq> '''' \<Longrightarrow> load (before_call w) key = '''' \<Longrightarrow>
   acquire_loop leader_Do key (Suc n) w =
     (([CallCAS key '''' ''1'' (True, None)], Some 0),
      \<lparr>leader = snd (cas (before_call w) key '''' ''1''), sched = tl (sched w)\<rparr>)"
  by (simp add: CompareAndSwap_leader)

lemma acquire_leader_held:
  "key \<noteq> '''' \<Longrightarrow> load (before_call w) key \<noteq> '''' \<Longrightarrow>
   acquire_loop leader_Do key (Suc n) w =
     after [CallCAS key '''' ''1'' (False, None), Sleep 100]
       (acquire_loop leader_Do key n \<lparr>leader = before_call w, sched = tl (sched w)\<rparr>)"
  by (simp add: CompareAndSwap_leader cas_miss)

lemma acquire_leader_nokey:
  "acquire_loop leader_Do '''' (Suc n) w =
     (([CallCAS '''' '''' ''1''
          (False, Some (InvalidStatus StatusBadRequest (''key parameter missing'' @ [CHR 0x0A]))),
        Stderr (CasErr (InvalidStatus StatusBadRequest (''key parameter missing'' @ [CHR 0x0A])))],
       Some 1),
      \<lparr>leader = before_call w, sched = tl (sched w)\<rparr>)"
  by (simp add: CompareAndSwap_leader_nokey)

lemma acquire_leader_waits:
  "key \<noteq> '''' \<Longrightarrow> quiet key w \<Longrightarrow> load (leader w) key \<noteq> '''' \<Longrightarrow>
   fst (acquire_loop leader_Do key n w) = (retries key n, None)"
proof (induction n arbitrary: w)
  case 0
  show ?case by simp
next
  case (Suc n)
  let ?w' = "\<lparr>leader = before_call w, sched = tl (sched w)\<rparr>"
  from Suc.prems have held: "load (before_call w) key \<noteq> ''''"
    by (simp add: before_call_quiet)
  from Suc.prems have q: "quiet key ?w'" by (simp add: quiet_tl)
  from held have "load (leader ?w') key \<noteq> ''''" by simp
  with Suc.IH [OF Suc.prems(1) q] have "fst (acquire_loop leader_Do key n ?w') = (retries key n, None)"
    by simp
  with Suc.prems(1) held show ?case
    by (simp add: acquire_leader_held fst_after retries_Suc del: acquire_loop.simps)
qed

subsection \<open>lock release\<close>

lemma release_leader_held:
  "k \<noteq> '''' \<Longrightarrow> load (before_call w) k = ''1'' \<Longrightarrow>
   lockReleaseAction [k] (Inr leader_Do) w =
     (([CallCAS k ''1'' '''' (True, None)], Some 0),
      \<lparr>leader = snd (cas (before_call w) k ''1'' ''''), sched = tl (sched w)\<rparr>)"
  by (simp add: lockReleaseAction_def CompareAndSwap_leader)

lemma release_leader_not_held:
  "k \<noteq> '''' \<Longrightarrow> load (before_call w) k \<noteq> ''1'' \<Longrightarrow>
   lockReleaseAction [k] (Inr leader_Do) w =
     (([CallCAS k ''1'' '''' (False, None), Stderr (InvalidState ''to release'')], Some 1),
      \<lparr>leader = before_call w, sched = tl (sched w)\<rparr>)"
  by (simp add: lockReleaseAction_def CompareAndSwap_leader cas_miss)

lemma release_leader_nokey:
  "lockReleaseAction [''''] (Inr leader_Do) w =
     (([CallCAS '''' ''1'' ''''
          (False, Some (InvalidStatus StatusBadRequest (''key parameter missing'' @ [CHR 0x0A]))),
        Stderr (CasErr (InvalidStatus StatusBadRequest (''key parameter missing'' @ [CHR 0x0A])))],
       Some 1),
      \<lparr>leader = before_call w, sched = tl (sched w)\<rparr>)"
  by (simp add: lockReleaseAction_def CompareAndSwap_leader_nokey)

subsection \<open>lock do and lock done\<close>

lemma lockDoAction_loop: "lockDoAction [key] (Inr c) n w = do_loop c key n w"
  by (simp add: lockDoAction_def)

lemma do_leader_doing:
  "key \<noteq> '''' \<Longrightarrow> load (before_call w) key = ''1'' \<Longrightarrow>
   do_loop leader_Do key (Suc n) w =
     after [CallGet key (''1'', None), Sleep 100]
       (do_loop leader_Do key n \<lparr>leader = before_call w, sched = tl (sched w)\<rparr>)"
  by (simp add: Get_leader)

lemma do_leader_done:
  "key \<noteq> '''' \<Longrightarrow> load (before_call w) key = ''2'' \<Longrightarrow>
   do_loop leader_Do key (Suc n) w =
     (([CallGet key (''2'', None), Stdout ''done''], Some 0),
      \<lparr>leader = before_call w, sched = tl (sched w)\<rparr>)"
  by (simp add: Get_leader)

lemma do_leader_invalid:
  "key \<noteq> '''' \<Longrightarrow> load (before_call w) key \<notin> {'''', ''1'', ''2''} \<Longrightarrow>
   do_loop leader_Do key (Suc n) w =
     (([CallGet key (load (before_call w) key, None), Stderr (InvalidState ''for do-once'')], Some 1),
      \<lparr>leader = before_call w, sched = tl (sched w)\<rparr>)"
  by (simp add: Get_leader)

lemma do_leader_new:
  assumes "key \<noteq> ''''" and "load (before_call w) key = ''''"
    and "load (before_call \<lparr>leader = before_call w, sched = tl (sched w)\<rparr>) key = ''''"
  shows "do_loop leader_Do key (Suc n) w =
     (([CallGet key ('''', None), CallCAS key '''' ''1'' (True, None), Stdout ''do''], Some 0),
      \<lparr>leader = snd (cas (before_call \<lparr>leader = before_call w, sched = tl (sched w)\<rparr>) key '''' ''1''),
       sched = tl (tl (sched w))\<rparr>)"
  using assms by (simp add: Get_leader CompareAndSwap_leader)

lemma do_leader_nokey:
  "do_loop leader_Do '''' (Suc n) w =
     (([CallGet '''' ('''', Some (InvalidStatus StatusBadRequest (''key parameter missing'' @ [CHR 0x0A]))),
        Stderr (GetErr (InvalidStatus StatusBadRequest (''key parameter missing'' @ [CHR 0x0A])))],
       Some 1),
      \<lparr>leader = before_call w, sched = tl (sched w)\<rparr>)"
  by (simp add: Get_leader_nokey)

lemma do_leader_waits:
  "key \<noteq> '''' \<Longrightarrow> quiet key w \<Longrightarrow> load (leader w) key = ''1'' \<Longrightarrow>
   fst (do_loop leader_Do key n w) = (polls key n, None)"
proof (induction n arbitrary: w)
  case 0
  show ?case by simp
next
  case (Suc n)
  let ?w' = "\<lparr>leader = before_call w, sched = tl (sched w)\<rparr>"
  from Suc.prems have doing: "load (before_call w) key = ''1''"
    by (simp add: before_call_quiet)
  from Suc.prems have q: "quiet key ?w'" by (simp add: quiet_tl)
  from doing have "load (leader ?w') key = ''1''" by simp
  with Suc.IH [OF Suc.prems(1) q] have "fst (do_loop leader_Do key n ?w') = (polls key n, None)"
    by simp
  with Suc.prems(1) doing show ?case
    by (simp add: do_leader_doing fst_after polls_Suc del: do_loop.simps)
qed

lemma done_with_leader_hit:
  "k \<noteq> '''' \<Longrightarrow> load (before_call w) k = doing \<Longrightarrow>
   done_with doing finished [k] (Inr leader_Do) w =
     (([CallCAS k doing finished (True, None)], Some 0),
      \<lparr>leader = snd (cas (before_call w) k doing finished), sched = tl (sched w)\<rparr>)"
  by (simp add: done_with_def CompareAndSwap_leader)

lemma done_with_leader_miss:
  "k \<noteq> '''' \<Longrightarrow> load (before_call w) k \<noteq> doing \<Longrightarrow>
   done_with doing finished [k] (Inr leader_Do) w =
     (([CallCAS k doing finished (False, None), Stderr (InvalidState ''to mark complete'')], Some 1),
      \<lparr>leader = before_call w, sched = tl (sched w)\<rparr>)"
  by (simp add: done_with_def CompareAndSwap_leader cas_miss)

text \<open>
  With the numeric tokens on both sides the do-once protocol goes through: on a host where
  nobody else writes the key, \<open>lock do\<close> on an unset key prints \<open>do\<close> and leaves \<open>1\<close>;
  \<open>lock done\<close> (the text with \<open>1\<close> and \<open>2\<close>) then succeeds and leaves \<open>2\<close>; after that
  \<open>lock do\<close> prints \<open>done\<close> at its first read, with no sleep.
\<close>

lemma do_first_elected:
  assumes k: "k \<noteq> ''''" and q: "quiet k w" and new: "load (leader w) k = ''''"
  shows "\<exists>w'. do_loop leader_Do k (Suc n) w =
           (([CallGet k ('''', None), CallCAS k '''' ''1'' (True, None), Stdout ''do''], Some 0), w')
         \<and> load (leader w') k = ''1'' \<and> quiet k w'"
proof -
  let ?w1 = "\<lparr>leader = before_call w, sched = tl (sched w)\<rparr>"
  let ?w2 = "\<lparr>leader = snd (cas (before_call ?w1) k '''' ''1''), sched = tl (tl (sched w))\<rparr>"
  from q new have a: "load (before_call w) k = ''''" by (simp add: before_call_quiet)
  from q have q1: "quiet k ?w1" by (rule quiet_tl)
  from q1 a have b: "load (before_call ?w1) k = ''''" by (simp add: before_call_quiet)
  from q1 have "quiet k \<lparr>leader = snd (cas (before_call ?w1) k '''' ''1''), sched = tl (sched ?w1)\<rparr>"
    by (rule quiet_tl)
  then have q2: "quiet k ?w2" by simp
  from b have c: "load (leader ?w2) k = ''1''" by (simp add: load_after_cas)
  have "do_loop leader_Do k (Suc n) w =
          (([CallGet k ('''', None), CallCAS k '''' ''1'' (True, None), Stdout ''do''], Some 0), ?w2)"
    using k a b by (rule do_leader_new)
  with c q2 show ?thesis by (intro exI [of _ ?w2] conjI)
qed

lemma done_numeric_completes:
  assumes k: "k \<noteq> ''''" and q: "quiet k w" and doing: "load (leader w) k = ''1''"
  shows "\<exists>w'. lockDoneAction_numeric [k] (Inr leader_Do) w =
           (([CallCAS k ''1'' ''2'' (True, None)], Some 0), w')
         \<and> load (leader w') k = ''2'' \<and> quiet k w'"
proof -
  let ?w' = "\<lparr>leader = snd (cas (before_call w) k ''1'' ''2''), sched = tl (sched w)\<rparr>"
  from q doing have a: "load (before_call w) k = ''1''" by (simp add: before_call_quiet)
  from q have q': "quiet k ?w'" by (rule quiet_tl)
  from a have c: "load (leader ?w') k = ''2''" by (simp add: load_after_cas)
  from k a have "lockDoneAction_numeric [k] (Inr leader_Do) w =
      (([CallCAS k ''1'' ''2'' (True, None)], Some 0), ?w')"
    unfolding lockDoneAction_numeric_def by (rule done_with_leader_hit)
  with c q' show ?thesis by (intro exI [of _ ?w'] conjI)
qed

lemma do_after_done:
  assumes k: "k \<noteq> ''''" and q: "quiet k w" and finished: "load (leader w) k = ''2''"
  shows "fst (do_loop leader_Do k (Suc n) w) = ([CallGet k (''2'', None), Stdout ''done''], Some 0)"
proof -
  from q finished have "load (before_call w) k = ''2''" by (simp add: before_call_quiet)
  with k show ?thesis by (simp add: do_leader_done del: do_loop.simps)
qed

text \<open>
  A process that waits in \<open>lock do\<close> while the key is \<open>1\<close>: after \<open>m\<close> polls during which
  nobody writes the key, the worker's request \<open>CompareAndSwap(k, "1", "2")\<close> is served,
  and the next read prints \<open>done\<close>.
\<close>

lemma do_waiter_released:
  assumes k: "k \<noteq> ''''" and doing: "load (leader w) k = ''1''"
    and s: "sched w = replicate m [] @ [cas_request k ''1'' ''2''] # rest"
  shows "fst (do_loop leader_Do k (m + Suc n) w)
           = (polls k m @ [CallGet k (''2'', None), Stdout ''done''], Some 0)"
  using doing s
proof (induction m arbitrary: w)
  case 0
  then have "before_call w = snd (ServeHTTP (leader w) (cas_request k ''1'' ''2''))"
    by (simp add: before_call_def serve_all_def)
  also have "\<dots> = snd (cas (leader w) k ''1'' ''2'')"
    using k 0 by (simp add: ServeHTTP_PATCH cas_request_def lock_path_def FormValue_def cas_hit)
  finally have "load (before_call w) k = ''2''"
    using 0 by (simp add: load_after_cas)
  with k show ?case by (simp add: do_leader_done del: do_loop.simps)
next
  case (Suc m)
  let ?w' = "\<lparr>leader = before_call w, sched = tl (sched w)\<rparr>"
  from Suc.prems have b: "before_call w = leader w"
    by (simp add: before_call_def serve_all_def)
  with Suc.prems have doing': "load (before_call w) k = ''1''" by simp
  from Suc.prems b have "load (leader ?w') k = ''1''"
    and "sched ?w' = replicate m [] @ [cas_request k ''1'' ''2''] # rest"
    by simp_all
  then have "fst (do_loop leader_Do k (m + Suc n) ?w')
      = (polls k m @ [CallGet k (''2'', None), Stdout ''done''], Some 0)"
    by (rule Suc.IH)
  with k doing' show ?case
    by (simp add: do_leader_doing fst_after polls_Suc del: do_loop.simps)
qed

section \<open>Claims about the lock commands\<close>

text \<open>
  C8. The structure of \<open>lock acquire\<close>. With any client, whatever the number of rounds
  allowed, the trace of the command is some number \<open>m\<close> of rounds, each the call
  \<open>CompareAndSwap(key, "", "1")\<close> answered \<open>false\<close> followed by a sleep of 100 ms, and
  then an end: nothing more if the loop is still going (and then all rounds allowed were
  used), or the same call answered \<open>true\<close> and exit 0, or the same call answered with an
  error and exit 1. So exit 0 comes only right after an accepted swap, and every refused
  swap is followed by the same sleep and another attempt. The retries have no bound: on a
  host where the key stays taken, the command does \<open>n\<close> rounds for every \<open>n\<close> and is
  still going.
\<close>

theorem acquire_structure:
  "(\<exists>m tail. m \<le> n \<and>
      fst (fst (lockAcquireAction [key] (Inr c) n w)) = retries key m @ tail \<and>
      acquire_end key (snd (fst (lockAcquireAction [key] (Inr c) n w))) tail \<and>
      (snd (fst (lockAcquireAction [key] (Inr c) n w)) = None \<longrightarrow> m = n)) \<and>
   (key \<noteq> '''' \<and> quiet key h \<and> load (leader h) key \<noteq> '''' \<longrightarrow>
      fst (lockAcquireAction [key] (Inr leader_Do) n h) = (retries key n, None))"
proof (rule conjI)
  show "\<exists>m tail. m \<le> n \<and>
      fst (fst (lockAcquireAction [key] (Inr c) n w)) = retries key m @ tail \<and>
      acquire_end key (snd (fst (lockAcquireAction [key] (Inr c) n w))) tail \<and>
      (snd (fst (lockAcquireAction [key] (Inr c) n w)) = None \<longrightarrow> m = n)"
    unfolding lockAcquireAction_loop by (rule acquire_loop_shape)
next
  show "key \<noteq> '''' \<and> quiet key h \<and> load (leader h) key \<noteq> '''' \<longrightarrow>
      fst (lockAcquireAction [key] (Inr leader_Do) n h) = (retries key n, None)"
    unfolding lockAcquireAction_loop by (simp add: acquire_leader_waits)
qed

theorem acquire_structure_witness:
  "''llama'' \<noteq> '''' \<and>
   quiet ''llama'' \<lparr>leader = \<lparr>locks = [''llama'' \<mapsto> ''1'']\<rparr>,
                    sched = [[cas_request ''alpaca'' '''' ''1''], [get_request ''llama'']]\<rparr> \<and>
   load (leader \<lparr>leader = \<lparr>locks = [''llama'' \<mapsto> ''1'']\<rparr>,
                 sched = [[cas_request ''alpaca'' '''' ''1''], [get_request ''llama'']]\<rparr>) ''llama'' \<noteq> '''' \<and>
   fst (lockAcquireAction [''llama''] (Inr leader_Do) 2
         \<lparr>leader = \<lparr>locks = [''llama'' \<mapsto> ''1'']\<rparr>,
          sched = [[cas_request ''alpaca'' '''' ''1''], [get_request ''llama'']]\<rparr>)
     = ([CallCAS ''llama'' '''' ''1'' (False, None), Sleep 100,
         CallCAS ''llama'' '''' ''1'' (False, None), Sleep 100], None)"
proof -
  let ?h = "\<lparr>leader = \<lparr>locks = [''llama'' \<mapsto> ''1'']\<rparr>,
             sched = [[cas_request ''alpaca'' '''' ''1''], [get_request ''llama'']]\<rparr>"
  have a: "''llama'' \<noteq> ''''" by simp
  have b: "quiet ''llama'' ?h"
    by (simp add: quiet_def writes_def get_request_def)
  have c: "load (leader ?h) ''llama'' \<noteq> ''''"
    by (simp add: load_def index_def)
  have r: "retries ''llama'' 2
      = [CallCAS ''llama'' '''' ''1'' (False, None), Sleep 100,
         CallCAS ''llama'' '''' ''1'' (False, None), Sleep 100]"
    by (simp add: retries_def numeral_2_eq_2)
  from a b c acquire_structure [of 2 "''llama''" leader_Do ?h ?h]
  have "fst (lockAcquireAction [''llama''] (Inr leader_Do) 2 ?h) = (retries ''llama'' 2, None)"
    by (elim conjE impE) (intro conjI)
  with a b c show ?thesis unfolding r by (intro conjI)
qed

text \<open>
  C7, for a key that is not the empty string. When the token of \<open>k\<close> is not \<open>1\<close> at the
  moment the request is served (the unlocked, empty token included), \<open>lock release\<close> makes
  the one call \<open>CompareAndSwap(k, "1", "")\<close>, gets \<open>false\<close>, writes the invalid-state
  diagnostic to standard error and exits with status 1, without a second attempt; the
  store is left as it was.
\<close>

theorem release_not_locked:
  "k \<noteq> '''' \<Longrightarrow> load (before_call h) k \<noteq> ''1'' \<Longrightarrow>
   lockReleaseAction [k] (Inr leader_Do) h =
     (([CallCAS k ''1'' '''' (False, None), Stderr (InvalidState ''to release'')], Some 1),
      \<lparr>leader = before_call h, sched = tl (sched h)\<rparr>)"
  by (rule release_leader_not_held)

theorem release_not_locked_witness:
  "''llama'' \<noteq> '''' \<and> load (before_call (idle NewLeaderServer)) ''llama'' \<noteq> ''1'' \<and>
   lockReleaseAction [''llama''] (Inr leader_Do) (idle NewLeaderServer) =
     (([CallCAS ''llama'' ''1'' '''' (False, None), Stderr (InvalidState ''to release'')], Some 1),
      idle NewLeaderServer)"
proof -
  have a: "''llama'' \<noteq> ''''" by simp
  have b: "load (before_call (idle NewLeaderServer)) ''llama'' \<noteq> ''1''"
    by (simp add: load_def index_def NewLeaderServer_def)
  from a b release_not_locked [OF a b] show ?thesis by simp
qed

theorem release_empty_key_counterexample:
  "load (leader (idle NewLeaderServer)) '''' = '''' \<and>
   lockReleaseAction [''''] (Inr leader_Do) (idle NewLeaderServer) =
     (([CallCAS '''' ''1'' '''' (False, Some (InvalidStatus 400 (''key parameter missing'' @ [CHR 0x0A]))),
        Stderr (CasErr (InvalidStatus 400 (''key parameter missing'' @ [CHR 0x0A])))],
       Some 1),
      idle NewLeaderServer) \<and>
   Stderr (InvalidState ''to release'')
     \<notin> set (fst (fst (lockReleaseAction [''''] (Inr leader_Do) (idle NewLeaderServer))))"
  by (simp add: release_leader_nokey StatusBadRequest_def load_def index_def NewLeaderServer_def)

text \<open>
  C4, for a key that is not the empty string. On a host where no other process writes
  \<open>k\<close> and \<open>k\<close> is unlocked, \<open>lock acquire\<close> succeeds at its first swap, with no sleep,
  and leaves \<open>1\<close>; \<open>lock release\<close> then succeeds and leaves the empty token; and a second
  \<open>lock acquire\<close> again succeeds at its first swap, with no sleep.
\<close>

theorem acquire_release_round_trip:
  assumes k: "k \<noteq> ''''" and q: "quiet k h" and free: "load (leader h) k = ''''"
  shows "\<exists>h1 h2 h3.
     lockAcquireAction [k] (Inr leader_Do) (Suc n) h
       = (([CallCAS k '''' ''1'' (True, None)], Some 0), h1) \<and>
     load (leader h1) k = ''1'' \<and>
     lockReleaseAction [k] (Inr leader_Do) h1
       = (([CallCAS k ''1'' '''' (True, None)], Some 0), h2) \<and>
     load (leader h2) k = '''' \<and>
     lockAcquireAction [k] (Inr leader_Do) (Suc m) h2
       = (([CallCAS k '''' ''1'' (True, None)], Some 0), h3) \<and>
     load (leader h3) k = ''1''"
proof -
  let ?h1 = "\<lparr>leader = snd (cas (before_call h) k '''' ''1''), sched = tl (sched h)\<rparr>"
  let ?h2 = "\<lparr>leader = snd (cas (before_call ?h1) k ''1'' ''''), sched = tl (sched ?h1)\<rparr>"
  let ?h3 = "\<lparr>leader = snd (cas (before_call ?h2) k '''' ''1''), sched = tl (sched ?h2)\<rparr>"
  from q free have a0: "load (before_call h) k = ''''" by (simp add: before_call_quiet)
  from q have q1: "quiet k ?h1" by (rule quiet_tl)
  from a0 have l1: "load (leader ?h1) k = ''1''" by (simp add: load_after_cas)
  from q1 l1 have a1: "load (before_call ?h1) k = ''1''" by (simp add: before_call_quiet)
  from q1 have q2: "quiet k ?h2" by (rule quiet_tl)
  from a1 have l2: "load (leader ?h2) k = ''''" by (simp add: load_after_cas)
  from q2 l2 have a2: "load (before_call ?h2) k = ''''" by (simp only: before_call_quiet)
  from a2 have l3: "load (leader ?h3) k = ''1''" by (simp add: load_after_cas)
  have s1: "lockAcquireAction [k] (Inr leader_Do) (Suc n) h
       = (([CallCAS k '''' ''1'' (True, None)], Some 0), ?h1)"
    unfolding lockAcquireAction_loop using k a0 by (rule acquire_leader_free)
  have s2: "lockReleaseAction [k] (Inr leader_Do) ?h1
       = (([CallCAS k ''1'' '''' (True, None)], Some 0), ?h2)"
    using k a1 by (rule release_leader_held)
  have s3: "lockAcquireAction [k] (Inr leader_Do) (Suc m) ?h2
       = (([CallCAS k '''' ''1'' (True, None)], Some 0), ?h3)"
    unfolding lockAcquireAction_loop using k a2 by (rule acquire_leader_free)
  from s1 l1 s2 l2 s3 l3 show ?thesis
    by (intro exI [of _ ?h1] exI [of _ ?h2] exI [of _ ?h3] conjI)
qed

theorem acquire_release_round_trip_witness:
  "''llama'' \<noteq> '''' \<and>
   quiet ''llama'' \<lparr>leader = NewLeaderServer,
                    sched = [[cas_request ''alpaca'' '''' ''1''], [get_request ''llama'']]\<rparr> \<and>
   load (leader \<lparr>leader = NewLeaderServer,
                 sched = [[cas_request ''alpaca'' '''' ''1''], [get_request ''llama'']]\<rparr>) ''llama'' = '''' \<and>
   (\<exists>h1 h2 h3.
     lockAcquireAction [''llama''] (Inr leader_Do) (Suc 0)
         \<lparr>leader = NewLeaderServer,
          sched = [[cas_request ''alpaca'' '''' ''1''], [get_request ''llama'']]\<rparr>
       = (([CallCAS ''llama'' '''' ''1'' (True, None)], Some 0), h1) \<and>
     load (leader h1) ''llama'' = ''1'' \<and>
     lockReleaseAction [''llama''] (Inr leader_Do) h1
       = (([CallCAS ''llama'' ''1'' '''' (True, None)], Some 0), h2) \<and>
     load (leader h2) ''llama'' = '''' \<and>
     lockAcquireAction [''llama''] (Inr leader_Do) (Suc 0) h2
       = (([CallCAS ''llama'' '''' ''1'' (True, None)], Some 0), h3) \<and>
     load (leader h3) ''llama'' = ''1'')"
proof -
  let ?h = "\<lparr>leader = NewLeaderServer,
             sched = [[cas_request ''alpaca'' '''' ''1''], [get_request ''llama'']]\<rparr>"
  have a: "''llama'' \<noteq> ''''" by simp
  have b: "quiet ''llama'' ?h"
    by (simp add: quiet_def writes_def get_request_def)
  have c: "load (leader ?h) ''llama'' = ''''"
    by (simp add: load_def index_def NewLeaderServer_def)
  from a b c acquire_release_round_trip [OF a b c, of 0 0] show ?thesis
    by (intro conjI)
qed

theorem acquire_empty_key_counterexample:
  "load (leader (idle NewLeaderServer)) '''' = '''' \<and>
   lockAcquireAction [''''] (Inr leader_Do) 1 (idle NewLeaderServer) =
     (([CallCAS '''' '''' ''1'' (False, Some (InvalidStatus 400 (''key parameter missing'' @ [CHR 0x0A]))),
        Stderr (CasErr (InvalidStatus 400 (''key parameter missing'' @ [CHR 0x0A])))],
       Some 1),
      idle NewLeaderServer)"
  by (simp add: lockAcquireAction_loop acquire_leader_nokey StatusBadRequest_def
      load_def index_def NewLeaderServer_def del: acquire_loop.simps)

section \<open>The do-once tokens of the two files\<close>

text \<open>
  \<open>lock do\<close> marks work in progress with \<open>1\<close>; \<open>lock done\<close> of
  \<^verbatim>\<open>clicommand/lock_done.go\<close> expects \<open>doing\<close>. So after \<open>lock do\<close> has elected a worker,
  that worker's \<open>lock done\<close> is refused with the invalid-state diagnostic and exit 1, the
  key stays \<open>1\<close>, and a process waiting in \<open>lock do\<close> keeps polling.
\<close>

lemma done_after_do_refused:
  assumes k: "k \<noteq> ''''" and q: "quiet k w" and doing: "load (leader w) k = ''1''"
  shows "lockDoneAction [k] (Inr leader_Do) w =
     (([CallCAS k ''doing'' ''done'' (False, None), Stderr (InvalidState ''to mark complete'')], Some 1),
      \<lparr>leader = before_call w, sched = tl (sched w)\<rparr>)"
proof -
  from q doing have "load (before_call w) k = ''1''" by (simp add: before_call_quiet)
  then have "load (before_call w) k \<noteq> ''doing''" by simp
  with k show ?thesis unfolding lockDoneAction_def by (rule done_with_leader_miss)
qed

text \<open>
  C2 at the key \<open>llama\<close>, on a host with a fresh leader and no other process: \<open>lock do\<close>
  prints \<open>do\<close> and leaves \<open>1\<close>; \<open>lock done\<close> then exits 1 with the invalid-state
  diagnostic and leaves \<open>1\<close>; a later \<open>lock do\<close> is still polling after three rounds.
\<close>

theorem do_done_token_mismatch:
  "lockDoAction [''llama''] (Inr leader_Do) 1 (idle NewLeaderServer) =
     (([CallGet ''llama'' ('''', None), CallCAS ''llama'' '''' ''1'' (True, None), Stdout ''do''],
       Some 0),
      idle \<lparr>locks = [''llama'' \<mapsto> ''1'']\<rparr>) \<and>
   lockDoneAction [''llama''] (Inr leader_Do) (idle \<lparr>locks = [''llama'' \<mapsto> ''1'']\<rparr>) =
     (([CallCAS ''llama'' ''doing'' ''done'' (False, None),
        Stderr (InvalidState ''to mark complete'')], Some 1),
      idle \<lparr>locks = [''llama'' \<mapsto> ''1'']\<rparr>) \<and>
   fst (lockDoAction [''llama''] (Inr leader_Do) 3 (idle \<lparr>locks = [''llama'' \<mapsto> ''1'']\<rparr>)) =
     ([CallGet ''llama'' (''1'', None), Sleep 100,
       CallGet ''llama'' (''1'', None), Sleep 100,
       CallGet ''llama'' (''1'', None), Sleep 100], None)"
proof (intro conjI)
  have k: "''llama'' \<noteq> ''''" by simp
  have new: "load (before_call (idle NewLeaderServer)) ''llama'' = ''''"
    by (simp add: load_def index_def NewLeaderServer_def)
  have new': "load (before_call \<lparr>leader = before_call (idle NewLeaderServer),
                                  sched = tl (sched (idle NewLeaderServer))\<rparr>) ''llama'' = ''''"
    by (simp add: load_def index_def NewLeaderServer_def)
  have "lockDoAction [''llama''] (Inr leader_Do) (Suc 0) (idle NewLeaderServer) =
     (([CallGet ''llama'' ('''', None), CallCAS ''llama'' '''' ''1'' (True, None), Stdout ''do''],
       Some 0),
      \<lparr>leader = snd (cas (before_call \<lparr>leader = before_call (idle NewLeaderServer),
                                         sched = tl (sched (idle NewLeaderServer))\<rparr>)
                        ''llama'' '''' ''1''),
       sched = tl (tl (sched (idle NewLeaderServer)))\<rparr>)"
    unfolding lockDoAction_loop using k new new' by (rule do_leader_new)
  then show "lockDoAction [''llama''] (Inr leader_Do) 1 (idle NewLeaderServer) =
     (([CallGet ''llama'' ('''', None), CallCAS ''llama'' '''' ''1'' (True, None), Stdout ''do''],
       Some 0),
      idle \<lparr>locks = [''llama'' \<mapsto> ''1'']\<rparr>)"
    by (simp add: cas_def index_def NewLeaderServer_def idle_def before_call_def serve_all_def)
next
  have k: "''llama'' \<noteq> ''''" by simp
  have q: "quiet ''llama'' (idle \<lparr>locks = [''llama'' \<mapsto> ''1'']\<rparr>)" by simp
  have d: "load (leader (idle \<lparr>locks = [''llama'' \<mapsto> ''1'']\<rparr>)) ''llama'' = ''1''"
    by (simp add: load_def index_def)
  from done_after_do_refused [OF k q d]
  show "lockDoneAction [''llama''] (Inr leader_Do) (idle \<lparr>locks = [''llama'' \<mapsto> ''1'']\<rparr>) =
     (([CallCAS ''llama'' ''doing'' ''done'' (False, None),
        Stderr (InvalidState ''to mark complete'')], Some 1),
      idle \<lparr>locks = [''llama'' \<mapsto> ''1'']\<rparr>)"
    by simp
next
  have k: "''llama'' \<noteq> ''''" by simp
  have q: "quiet ''llama'' (idle \<lparr>locks = [''llama'' \<mapsto> ''1'']\<rparr>)" by simp
  have d: "load (leader (idle \<lparr>locks = [''llama'' \<mapsto> ''1'']\<rparr>)) ''llama'' = ''1''"
    by (simp add: load_def index_def)
  have p: "polls ''llama'' 3 =
     [CallGet ''llama'' (''1'', None), Sleep 100,
      CallGet ''llama'' (''1'', None), Sleep 100,
      CallGet ''llama'' (''1'', None), Sleep 100]"
    by (simp add: polls_def numeral_3_eq_3)
  from do_leader_waits [OF k q d, of 3]
  show "fst (lockDoAction [''llama''] (Inr leader_Do) 3 (idle \<lparr>locks = [''llama'' \<mapsto> ''1'']\<rparr>)) =
     ([CallGet ''llama'' (''1'', None), Sleep 100,
       CallGet ''llama'' (''1'', None), Sleep 100,
       CallGet ''llama'' (''1'', None), Sleep 100], None)"
    unfolding lockDoAction_loop p .
qed

end
